theory Spec2Isabelle
  imports Complex_Main "HOL-Library.Log_Nat"
begin

section \<open>The form service of the form builder (src/actions/form.ts)\<close>

text \<open>
  The server actions of \<^verbatim>\<open>src/actions/form.ts\<close> are single calls into a relational
  store (through the Prisma client), guarded by the identity provider's
  \<^verbatim>\<open>currentUser()\<close> and, for creation, by the schema validator of
  \<^verbatim>\<open>formSchema\<close>. Each action is embedded as a function that takes the store and
  returns the outcome together with the store after the call. A thrown exception is
  the left injection of the outcome; the store calls are single statements (the
  nested write of \<^verbatim>\<open>SubmitForm\<close> is one transaction), so a call that throws leaves
  the store as it was.
\<close>

subsection \<open>Errors\<close>

text \<open>
  \<^item> \<open>UserNotFoundErr\<close>: the class of that name in the source (the spec's AuthError);
  \<^item> \<open>FormNotValid\<close>: \<^verbatim>\<open>new Error("From is not valid")\<close> (the spec's ValidationError);
  \<^item> \<open>FormNotCreated\<close>: \<^verbatim>\<open>new Error("Form could not be created")\<close> (the spec's
    PersistenceError);
  \<^item> \<open>RecordNotFound\<close>: what the store client's \<^verbatim>\<open>update\<close> throws when no record matches
    the \<^verbatim>\<open>where\<close> clause (the spec's NotFoundError);
  \<^item> \<open>UniqueConstraintFailed\<close>: what the store client's \<^verbatim>\<open>create\<close> throws when a unique
    column would get a value that is already present.
\<close>

datatype error =
    UserNotFoundErr
  | FormNotValid
  | FormNotCreated
  | RecordNotFound
  | UniqueConstraintFailed

subsection \<open>Data model\<close>

type_synonym DateTime = int

text \<open>
  The identity provider's user object; the actions read only its \<^verbatim>\<open>id\<close>. The result of
  \<^verbatim>\<open>currentUser()\<close> is passed to every action as a \<open>User option\<close>, \<open>None\<close> for
  \<^verbatim>\<open>null\<close>.
\<close>

record User =
  user_id :: string

text \<open>
  \<^verbatim>\<open>formSchemaType\<close>, the input of \<^verbatim>\<open>CreateForm\<close>: \<^verbatim>\<open>{ name: string, description?: string }\<close>.
  The fields are prefixed with \<open>in_\<close> to keep them apart from the columns of the same
  names.
\<close>

record formSchemaType =
  in_name :: string
  in_description :: "string option"

text \<open>
  Modelled from the spec: the table declarations (the Prisma schema of the repository) are
  not among the sources, so the two record types, the defaults of a new row and the unique
  columns follow section 3 of the specification: \<open>id\<close> is the generated primary key,
  \<open>shareURL\<close> is a unique generated token, \<open>published\<close> defaults to false, \<open>visits\<close> and
  \<open>submissions\<close> default to 0, the content of a new form is empty. The column \<open>id\<close> is
  named \<open>fid\<close> here (\<open>id\<close> is the identity function of HOL), and the columns of a
  submission are prefixed with \<open>sub_\<close>. The integer columns are unbounded integers.
\<close>

record Form =
  fid :: int
  userId :: string
  createdAt :: DateTime
  published :: bool
  name :: string
  description :: "string option"
  content :: string
  visits :: int
  submissions :: int
  shareURL :: string

record FormSubmission =
  sub_id :: int
  formId :: int
  sub_createdAt :: DateTime
  sub_content :: string

text \<open>
  The store: the rows of the two tables in insertion order, and the next value of each
  generated key.
\<close>

record store =
  forms :: "Form list"
  formSubmissions :: "FormSubmission list"
  nextFormId :: int
  nextSubmissionId :: int

definition empty_store :: store where
  "empty_store = \<lparr>forms = [], formSubmissions = [], nextFormId = 1, nextSubmissionId = 1\<rparr>"

text \<open>
  Modelled from the spec: the row that the store builds for
  \<^verbatim>\<open>create({ data: { userId, name, description } })\<close>, with the defaults of section 3. The
  generated token \<open>uuid\<close> and the clock \<open>now\<close> come from the environment.
\<close>

definition new_form :: "int \<Rightarrow> string \<Rightarrow> DateTime \<Rightarrow> string \<Rightarrow> string \<Rightarrow> string option \<Rightarrow> Form" where
  "new_form i uuid now uid nm descr =
     \<lparr>fid = i, userId = uid, createdAt = now, published = False, name = nm,
      description = descr, content = [], visits = 0, submissions = 0, shareURL = uuid\<rparr>"

text \<open>
  The store's invariant: the primary keys are distinct and below the next generated key,
  and the share tokens are distinct.
\<close>

definition wf :: "store \<Rightarrow> bool" where
  "wf s \<longleftrightarrow>
     distinct (map fid (forms s)) \<and>
     distinct (map shareURL (forms s)) \<and>
     list_all (\<lambda>f. fid f < nextFormId s) (forms s) \<and>
     distinct (map sub_id (formSubmissions s)) \<and>
     list_all (\<lambda>x. sub_id x < nextSubmissionId s) (formSubmissions s)"

subsection \<open>The store client\<close>

text \<open>
  \<^verbatim>\<open>findUnique({ where })\<close>: the record that satisfies the \<^verbatim>\<open>where\<close> clause, or \<^verbatim>\<open>null\<close>.
\<close>

definition findUnique :: "(Form \<Rightarrow> bool) \<Rightarrow> store \<Rightarrow> Form option" where
  "findUnique P s = find P (forms s)"

text \<open>
  \<^verbatim>\<open>update({ where, data })\<close> on the rows: the record that satisfies the \<^verbatim>\<open>where\<close> clause is
  replaced by its update, and the updated record is returned; \<open>None\<close> when no record
  satisfies the clause (the client then throws).
\<close>

fun update_rows :: "(Form \<Rightarrow> bool) \<Rightarrow> (Form \<Rightarrow> Form) \<Rightarrow> Form list \<Rightarrow> (Form \<times> Form list) option" where
  "update_rows P g [] = None"
| "update_rows P g (f # fs) =
     (if P f then Some (g f, g f # fs)
      else (case update_rows P g fs of
              None \<Rightarrow> None
            | Some (r, fs') \<Rightarrow> Some (r, f # fs')))"

definition update :: "(Form \<Rightarrow> bool) \<Rightarrow> (Form \<Rightarrow> Form) \<Rightarrow> store \<Rightarrow> (error + Form) \<times> store" where
  "update P g s =
     (case update_rows P g (forms s) of
        None \<Rightarrow> (Inl RecordNotFound, s)
      | Some (r, fs') \<Rightarrow> (Inr r, s\<lparr>forms := fs'\<rparr>))"

text \<open>
  \<^verbatim>\<open>create({ data })\<close>: the new row gets the next primary key and the generated token; a
  token that is already in the table violates the unique column and nothing is written.
  The client returns the inserted record (here under \<open>Some\<close>, so that the source's test of
  the result has a place in the model).
\<close>

definition create :: "string \<Rightarrow> DateTime \<Rightarrow> string \<Rightarrow> string \<Rightarrow> string option \<Rightarrow> store
    \<Rightarrow> (error + Form option) \<times> store" where
  "create uuid now uid nm descr s =
     (if uuid \<in> set (map shareURL (forms s)) then (Inl UniqueConstraintFailed, s)
      else (let form = new_form (nextFormId s) uuid now uid nm descr
            in (Inr (Some form),
                s\<lparr>forms := forms s @ [form], nextFormId := nextFormId s + 1\<rparr>)))"

text \<open>
  \<^verbatim>\<open>aggregate({ where, _sum })\<close>: the sum of a column over the selected rows, \<^verbatim>\<open>null\<close> when
  no row is selected; and the source's \<^verbatim>\<open>_sum.x || 0\<close>, which maps \<^verbatim>\<open>null\<close> (and 0) to 0.
\<close>

definition aggregate_sum :: "(Form \<Rightarrow> int) \<Rightarrow> Form list \<Rightarrow> int option" where
  "aggregate_sum col rows = (if rows = [] then None else Some (sum_list (map col rows)))"

definition or_zero :: "int option \<Rightarrow> int" where
  "or_zero x = (case x of None \<Rightarrow> 0 | Some v \<Rightarrow> (if v = 0 then 0 else v))"

subsection \<open>The schema validator (formSchema)\<close>

text \<open>
  \<^verbatim>\<open>z.object({ name: z.string().min(4), description: z.string().optional() })\<close>: on an
  input of type \<^verbatim>\<open>formSchemaType\<close> the only constraint is the length of the name.
\<close>

definition safeParse :: "formSchemaType \<Rightarrow> bool" where
  "safeParse data \<longleftrightarrow> 4 \<le> length (in_name data)"

subsection \<open>JavaScript numbers\<close>

text \<open>
  The numbers of \<^verbatim>\<open>GetFormStats\<close> are IEEE 754 double-precision values: a finite value (a
  rational with a 53-bit significand), an infinity, or NaN. The two zeros, which
  \<^verbatim>\<open>===\<close> identifies, are the one value \<open>Finite 0\<close>.
\<close>

datatype double = Finite rat | PosInfinity | NegInfinity | NaN

text \<open>
  The binade of a positive rational \<open>a\<close>: the exponent \<open>e\<close> with
  \<open>2 powi e \<le> a < 2 powi (e + 1)\<close>. With \<open>a = p / q\<close> in lowest terms it is the difference
  of the bit lengths of \<open>p\<close> and \<open>q\<close>, or one less.
\<close>

definition binade :: "rat \<Rightarrow> int" where
  "binade a =
     (let (p, q) = quotient_of a; c = bitlen p - bitlen q
      in if 2 powi c \<le> a then c else c - 1)"

text \<open>Rounding to the nearest integer, a tie to the even one.\<close>

definition round_half_even :: "rat \<Rightarrow> int" where
  "round_half_even y =
     (let f = \<lfloor>y\<rfloor>; d = y - of_int f
      in if d < 1 / 2 then f else if 1 / 2 < d then f + 1 else if even f then f else f + 1)"

text \<open>
  The double nearest to a rational (round to nearest, ties to even): the spacing of the
  doubles around \<open>x\<close> is \<open>2 powi (e - 52)\<close> for the binade \<open>e\<close> of \<open>\<bar>x\<bar>\<close>, and
  \<open>2 powi (- 1074)\<close> below the normal range; a result of magnitude \<open>2 powi 1024\<close> or more is
  an infinity.
\<close>

definition round_double :: "rat \<Rightarrow> double" where
  "round_double x =
     (if x = 0 then Finite 0
      else (let a = \<bar>x\<bar>;
                e = max (binade a) (- 1022);
                u = 2 powi (e - 52);
                r = of_int (round_half_even (a / u)) * u
            in if 2 powi 1024 \<le> r then (if 0 < x then PosInfinity else NegInfinity)
               else Finite (if 0 < x then r else - r)))"

text \<open>An integer of the store as a number.\<close>

definition num :: "int \<Rightarrow> double" where
  "num i = round_double (of_int i)"

text \<open>The operators \<^verbatim>\<open>>\<close>, \<^verbatim>\<open>/\<close>, \<^verbatim>\<open>*\<close> and \<^verbatim>\<open>-\<close> on numbers. A zero divisor is \<open>+0\<close>.\<close>

fun fgt :: "double \<Rightarrow> double \<Rightarrow> bool" where
  "fgt (Finite x) (Finite y) = (y < x)"
| "fgt (Finite x) NegInfinity = True"
| "fgt PosInfinity (Finite y) = True"
| "fgt PosInfinity NegInfinity = True"
| "fgt _ _ = False"

fun fdiv :: "double \<Rightarrow> double \<Rightarrow> double" where
  "fdiv (Finite x) (Finite y) =
     (if y = 0 then (if x = 0 then NaN else if 0 < x then PosInfinity else NegInfinity)
      else round_double (x / y))"
| "fdiv (Finite x) PosInfinity = Finite 0"
| "fdiv (Finite x) NegInfinity = Finite 0"
| "fdiv PosInfinity (Finite y) = (if 0 \<le> y then PosInfinity else NegInfinity)"
| "fdiv NegInfinity (Finite y) = (if 0 \<le> y then NegInfinity else PosInfinity)"
| "fdiv _ _ = NaN"

fun fmul :: "double \<Rightarrow> double \<Rightarrow> double" where
  "fmul (Finite x) (Finite y) = round_double (x * y)"
| "fmul (Finite x) PosInfinity =
     (if x = 0 then NaN else if 0 < x then PosInfinity else NegInfinity)"
| "fmul (Finite x) NegInfinity =
     (if x = 0 then NaN else if 0 < x then NegInfinity else PosInfinity)"
| "fmul PosInfinity (Finite y) =
     (if y = 0 then NaN else if 0 < y then PosInfinity else NegInfinity)"
| "fmul NegInfinity (Finite y) =
     (if y = 0 then NaN else if 0 < y then NegInfinity else PosInfinity)"
| "fmul PosInfinity PosInfinity = PosInfinity"
| "fmul PosInfinity NegInfinity = NegInfinity"
| "fmul NegInfinity PosInfinity = NegInfinity"
| "fmul NegInfinity NegInfinity = PosInfinity"
| "fmul _ _ = NaN"

fun fsub :: "double \<Rightarrow> double \<Rightarrow> double" where
  "fsub (Finite x) (Finite y) = round_double (x - y)"
| "fsub (Finite x) PosInfinity = NegInfinity"
| "fsub (Finite x) NegInfinity = PosInfinity"
| "fsub PosInfinity (Finite y) = PosInfinity"
| "fsub PosInfinity NegInfinity = PosInfinity"
| "fsub NegInfinity (Finite y) = NegInfinity"
| "fsub NegInfinity PosInfinity = NegInfinity"
| "fsub _ _ = NaN"

subsection \<open>The actions\<close>

text \<open>
  The result of \<^verbatim>\<open>GetFormStats\<close>. The two totals are prefixed with \<open>total_\<close>; they are the
  integers that the aggregate returns, and they enter the arithmetic as numbers (\<open>num\<close>).
  The rates are numbers, computed by the source's three floating-point operations.
\<close>

record FormStats =
  total_visits :: int
  total_submissions :: int
  submissionRate :: double
  bounceRate :: double

definition GetFormStats :: "User option \<Rightarrow> store \<Rightarrow> (error + FormStats) \<times> store" where
  "GetFormStats user s =
     (case user of
        None \<Rightarrow> (Inl UserNotFoundErr, s)
      | Some u \<Rightarrow>
          (let rows = filter (\<lambda>f. userId f = user_id u) (forms s);
               visits' = or_zero (aggregate_sum visits rows);
               submissions' = or_zero (aggregate_sum submissions rows);
               submissionRate' =
                 (if fgt (num visits') (Finite 0)
                  then fmul (fdiv (num submissions') (num visits')) (Finite 100)
                  else Finite 0);
               bounceRate' = fsub (Finite 100) submissionRate'
           in (Inr \<lparr>total_visits = visits', total_submissions = submissions',
                    submissionRate = submissionRate', bounceRate = bounceRate'\<rparr>, s)))"

definition CreateForm :: "string \<Rightarrow> DateTime \<Rightarrow> User option \<Rightarrow> formSchemaType \<Rightarrow> store
    \<Rightarrow> (error + int) \<times> store" where
  "CreateForm uuid now user data s =
     (if \<not> safeParse data then (Inl FormNotValid, s)
      else (case user of
              None \<Rightarrow> (Inl UserNotFoundErr, s)
            | Some u \<Rightarrow>
                (case create uuid now (user_id u) (in_name data) (in_description data) s of
                   (Inl e, s') \<Rightarrow> (Inl e, s')
                 | (Inr None, s') \<Rightarrow> (Inl FormNotCreated, s')
                 | (Inr (Some form), s') \<Rightarrow> (Inr (fid form), s'))))"

text \<open>
  \<^verbatim>\<open>GetForm\<close> (the spec's GetForms): the user's forms, latest first. The order of forms
  created at the same instant is the store's; here it is that of a stable sort.
\<close>

definition GetForm :: "User option \<Rightarrow> store \<Rightarrow> (error + Form list) \<times> store" where
  "GetForm user s =
     (case user of
        None \<Rightarrow> (Inl UserNotFoundErr, s)
      | Some u \<Rightarrow>
          (Inr (sort_key (\<lambda>f. - createdAt f) (filter (\<lambda>f. userId f = user_id u) (forms s))), s))"

definition GetFormById :: "User option \<Rightarrow> int \<Rightarrow> store \<Rightarrow> (error + Form option) \<times> store" where
  "GetFormById user i s =
     (case user of
        None \<Rightarrow> (Inl UserNotFoundErr, s)
      | Some u \<Rightarrow> (Inr (findUnique (\<lambda>f. userId f = user_id u \<and> fid f = i) s), s))"

definition UpdateFormContent :: "User option \<Rightarrow> int \<Rightarrow> string \<Rightarrow> store \<Rightarrow> (error + Form) \<times> store" where
  "UpdateFormContent user i jsonContent s =
     (case user of
        None \<Rightarrow> (Inl UserNotFoundErr, s)
      | Some u \<Rightarrow>
          update (\<lambda>f. userId f = user_id u \<and> fid f = i) (\<lambda>f. f\<lparr>content := jsonContent\<rparr>) s)"

definition PublishForm :: "User option \<Rightarrow> int \<Rightarrow> store \<Rightarrow> (error + Form) \<times> store" where
  "PublishForm user i s =
     (case user of
        None \<Rightarrow> (Inl UserNotFoundErr, s)
      | Some u \<Rightarrow>
          update (\<lambda>f. userId f = user_id u \<and> fid f = i) (\<lambda>f. f\<lparr>published := True\<rparr>) s)"

definition GetFormContentByUrl :: "string \<Rightarrow> store \<Rightarrow> (error + string) \<times> store" where
  "GetFormContentByUrl formUrl s =
     (case update (\<lambda>f. shareURL f = formUrl) (\<lambda>f. f\<lparr>visits := visits f + 1\<rparr>) s of
        (Inl e, s') \<Rightarrow> (Inl e, s')
      | (Inr f, s') \<Rightarrow> (Inr (content f), s'))"

text \<open>
  \<^verbatim>\<open>SubmitForm\<close>: the update and the nested \<^verbatim>\<open>create\<close> of the submission are one
  transaction. The new submission gets the next key of its table and the clock's \<open>now\<close>.
\<close>

definition SubmitForm :: "DateTime \<Rightarrow> string \<Rightarrow> string \<Rightarrow> store \<Rightarrow> (error + Form) \<times> store" where
  "SubmitForm now formUrl content' s =
     (case update (\<lambda>f. shareURL f = formUrl \<and> published f)
                  (\<lambda>f. f\<lparr>submissions := submissions f + 1\<rparr>) s of
        (Inl e, s') \<Rightarrow> (Inl e, s')
      | (Inr f, s') \<Rightarrow>
          (Inr f,
           s'\<lparr>formSubmissions := formSubmissions s' @
                 [\<lparr>sub_id = nextSubmissionId s', formId = fid f, sub_createdAt = now,
                   sub_content = content'\<rparr>],
               nextSubmissionId := nextSubmissionId s' + 1\<rparr>))"

definition GetFormWithSubmissions :: "User option \<Rightarrow> int \<Rightarrow> store
    \<Rightarrow> (error + (Form \<times> FormSubmission list) option) \<times> store" where
  "GetFormWithSubmissions user i s =
     (case user of
        None \<Rightarrow> (Inl UserNotFoundErr, s)
      | Some u \<Rightarrow>
          (Inr (case findUnique (\<lambda>f. userId f = user_id u \<and> fid f = i) s of
                  None \<Rightarrow> None
                | Some f \<Rightarrow> Some (f, filter (\<lambda>x. formId x = fid f) (formSubmissions s))), s))"

subsection \<open>Runs of the service\<close>

text \<open>
  A call of the service: the action with its arguments and what the environment supplies
  (the current user, the generated token, the clock). \<open>exec\<close> is the store after the
  call, \<open>execs\<close> the store after a sequence of calls.
\<close>

datatype call =
    Call_GetFormStats "User option"
  | Call_CreateForm string DateTime "User option" formSchemaType
  | Call_GetForm "User option"
  | Call_GetFormById "User option" int
  | Call_UpdateFormContent "User option" int string
  | Call_PublishForm "User option" int
  | Call_GetFormContentByUrl string
  | Call_SubmitForm DateTime string string
  | Call_GetFormWithSubmissions "User option" int

fun exec :: "call \<Rightarrow> store \<Rightarrow> store" where
  "exec (Call_GetFormStats user) s = snd (GetFormStats user s)"
| "exec (Call_CreateForm uuid now user data) s = snd (CreateForm uuid now user data s)"
| "exec (Call_GetForm user) s = snd (GetForm user s)"
| "exec (Call_GetFormById user i) s = snd (GetFormById user i s)"
| "exec (Call_UpdateFormContent user i c) s = snd (UpdateFormContent user i c s)"
| "exec (Call_PublishForm user i) s = snd (PublishForm user i s)"
| "exec (Call_GetFormContentByUrl url) s = snd (GetFormContentByUrl url s)"
| "exec (Call_SubmitForm now url c) s = snd (SubmitForm now url c s)"
| "exec (Call_GetFormWithSubmissions user i) s = snd (GetFormWithSubmissions user i s)"

fun execs :: "call list \<Rightarrow> store \<Rightarrow> store" where
  "execs [] s = s"
| "execs (c # cs) s = execs cs (exec c s)"

text \<open>
  The stored form with a given primary key, and how a stored form may differ from an
  earlier state of itself: same key, same owner, counters not smaller, still published if
  it was.
\<close>

definition formById :: "store \<Rightarrow> int \<Rightarrow> Form option" where
  "formById s i = find (\<lambda>f. fid f = i) (forms s)"

definition evolves :: "Form \<Rightarrow> Form \<Rightarrow> bool" where
  "evolves f f' \<longleftrightarrow>
     fid f' = fid f \<and> userId f' = userId f \<and> visits f \<le> visits f' \<and>
     submissions f \<le> submissions f' \<and> (published f \<longrightarrow> published f')"

subsection \<open>A sample store\<close>

text \<open>
  Two users and the store after this session: alice creates the form \<open>Survey\<close>, bob
  creates the form \<open>Poll!\<close>, alice's form is fetched once by its token, alice publishes
  it, it is fetched again and one answer is submitted.
\<close>

definition alice :: User where
  "alice = \<lparr>user_id = ''alice''\<rparr>"

definition bob :: User where
  "bob = \<lparr>user_id = ''bob''\<rparr>"

definition form_a :: Form where
  "form_a = \<lparr>fid = 1, userId = ''alice'', createdAt = 10, published = True, name = ''Survey'',
             description = Some ''q1'', content = [], visits = 2, submissions = 1,
             shareURL = ''tok-1''\<rparr>"

definition form_b :: Form where
  "form_b = \<lparr>fid = 2, userId = ''bob'', createdAt = 20, published = False, name = ''Poll!'',
             description = None, content = [], visits = 0, submissions = 0,
             shareURL = ''tok-2''\<rparr>"

definition sample_store :: store where
  "sample_store =
     \<lparr>forms = [form_a, form_b],
      formSubmissions = [\<lparr>sub_id = 1, formId = 1, sub_createdAt = 30, sub_content = ''{a:1}''\<rparr>],
      nextFormId = 3, nextSubmissionId = 2\<rparr>"

definition sample_session :: "call list" where
  "sample_session =
     [Call_CreateForm ''tok-1'' 10 (Some alice) \<lparr>in_name = ''Survey'', in_description = Some ''q1''\<rparr>,
      Call_CreateForm ''tok-2'' 20 (Some bob) \<lparr>in_name = ''Poll!'', in_description = None\<rparr>,
      Call_GetFormContentByUrl ''tok-1'',
      Call_PublishForm (Some alice) 1,
      Call_GetFormContentByUrl ''tok-1'',
      Call_SubmitForm 30 ''tok-1'' ''{a:1}'']"


text \<open>
  A later session on the sample store: a visit and an answer on alice's form, then bob's
  attempts to rewrite and to publish it, and a new form of bob's.
\<close>

definition later_session :: "call list" where
  "later_session =
     [Call_GetFormContentByUrl ''tok-1'',
      Call_SubmitForm 50 ''tok-1'' ''{b:2}'',
      Call_UpdateFormContent (Some bob) 1 ''[x]'',
      Call_PublishForm (Some bob) 1,
      Call_CreateForm ''tok-3'' 60 (Some bob) \<lparr>in_name = ''Quiz'', in_description = None\<rparr>]"

section \<open>Properties\<close>

subsection \<open>The store client\<close>

text \<open>
  An update throws exactly when no row satisfies the clause; when the clause selects the
  one row with a given key, that row alone is rewritten.
\<close>

lemma update_rows_None: "update_rows P g fs = None \<longleftrightarrow> (\<forall>f\<in>set fs. \<not> P f)"
  by (induction fs) (auto split: option.splits)

lemma update_rows_key:
  "distinct (map k fs) \<Longrightarrow> f \<in> set fs \<Longrightarrow> \<forall>h\<in>set fs. P h \<longleftrightarrow> k h = k f \<Longrightarrow>
   update_rows P g fs = Some (g f, map (\<lambda>h. if k h = k f then g h else h) fs)"
proof (induction fs)
  case Nil
  then show ?case by simp
next
  case (Cons a fs)
  show ?case
  proof (cases "P a")
    case True
    with Cons.prems have ka: "k a = k f" by simp
    with Cons.prems have af: "a = f" by (auto simp: image_iff)
    from Cons.prems ka have "\<forall>h\<in>set fs. k h \<noteq> k f" by (auto simp: image_iff)
    then have "map (\<lambda>h. if k h = k f then g h else h) fs = fs"
      by (induction fs) auto
    with True af show ?thesis by simp
  next
    case False
    with Cons.prems have "k a \<noteq> k f" and "f \<in> set fs" by auto
    with Cons False show ?thesis by simp
  qed
qed

lemma update_no_match:
  assumes "\<forall>f\<in>set (forms s). \<not> P f"
  shows "update P g s = (Inl RecordNotFound, s)"
proof -
  from assms have "update_rows P g (forms s) = None"
    by (simp add: update_rows_None)
  then show ?thesis by (simp add: update_def)
qed

lemma update_match:
  "distinct (map k (forms s)) \<Longrightarrow> f \<in> set (forms s) \<Longrightarrow>
   \<forall>h\<in>set (forms s). P h \<longleftrightarrow> k h = k f \<Longrightarrow>
   update P g s = (Inr (g f), s\<lparr>forms := map (\<lambda>h. if k h = k f then g h else h) (forms s)\<rparr>)"
  by (simp add: update_def update_rows_key)

text \<open>In a well-formed store a primary key, and a share token, identifies one row.\<close>

lemma wf_fid_eq:
  "wf s \<Longrightarrow> f \<in> set (forms s) \<Longrightarrow> h \<in> set (forms s) \<Longrightarrow> fid h = fid f \<Longrightarrow> h = f"
  by (auto simp: wf_def distinct_map dest: inj_onD)

lemma wf_shareURL_eq:
  "wf s \<Longrightarrow> f \<in> set (forms s) \<Longrightarrow> h \<in> set (forms s) \<Longrightarrow> shareURL h = shareURL f \<Longrightarrow> h = f"
  by (auto simp: wf_def distinct_map dest: inj_onD)

lemma wf_distinct_fid: "wf s \<Longrightarrow> distinct (map fid (forms s))"
  by (simp add: wf_def)

lemma wf_fresh_id: "wf s \<Longrightarrow> nextFormId s \<notin> fid ` set (forms s)"
  by (auto simp: wf_def list_all_iff)

lemma wf_shareURL_iff_fid:
  assumes "wf s" and "f \<in> set (forms s)" and "h \<in> set (forms s)"
  shows "shareURL h = shareURL f \<longleftrightarrow> fid h = fid f"
  using assms wf_fid_eq wf_shareURL_eq by blast

lemma formById_stored:
  "wf s \<Longrightarrow> f \<in> set (forms s) \<Longrightarrow> formById s (fid f) = Some f"
proof -
  assume w: "wf s" and fin: "f \<in> set (forms s)"
  then obtain h where h: "find (\<lambda>h. fid h = fid f) (forms s) = Some h"
    by (cases "find (\<lambda>h. fid h = fid f) (forms s)") (auto simp: find_None_iff)
  then have "h \<in> set (forms s)" and "fid h = fid f"
    by (auto simp: find_Some_iff)
  with wf_fid_eq [OF w fin] have "h = f" by simp
  with h show ?thesis by (simp add: formById_def)
qed

text \<open>The source's \<^verbatim>\<open>_sum.x || 0\<close> is the sum of the column, 0 over no rows.\<close>

lemma or_zero_aggregate_sum: "or_zero (aggregate_sum col rows) = sum_list (map col rows)"
  by (simp add: or_zero_def aggregate_sum_def)

text \<open>The sample store is well-formed, and it is the store after the sample session.\<close>

lemma wf_sample_store: "wf sample_store"
  by (simp add: wf_def sample_store_def form_a_def form_b_def)

lemma forms_sample_store: "forms sample_store = [form_a, form_b]"
  by (simp add: sample_store_def)

lemma sample_store_reachable: "execs sample_session empty_store = sample_store"
  by code_simp

subsection \<open>What a call may do to a stored form\<close>

text \<open>
  An update rewrites a row in place and keeps its key, so the form found under a key after
  the update is the one found before or its rewritten version. Creation appends a row and
  hides no earlier one. Hence every call, and every sequence of calls, takes a stored
  form to a later state of itself.
\<close>

lemma evolves_refl: "evolves f f"
  by (simp add: evolves_def)

lemma evolves_trans: "evolves f g \<Longrightarrow> evolves g h \<Longrightarrow> evolves f h"
  by (auto simp: evolves_def)

lemma find_update_rows:
  assumes "update_rows P g fs = Some (r, fs')" and "\<And>h. fid (g h) = fid h"
    and "find (\<lambda>h. fid h = i) fs = Some f"
  shows "find (\<lambda>h. fid h = i) fs' = Some f \<or> find (\<lambda>h. fid h = i) fs' = Some (g f)"
  using assms
proof (induction fs arbitrary: r fs')
  case Nil
  then show ?case by simp
next
  case (Cons a fs)
  show ?case
  proof (cases "P a")
    case True
    with Cons.prems(1) have fs': "fs' = g a # fs" by auto
    show ?thesis
    proof (cases "fid a = i")
      case True
      with Cons.prems(3) have "f = a" by simp
      with True fs' Cons.prems(2) show ?thesis by simp
    next
      case False
      with Cons.prems(3) have "find (\<lambda>h. fid h = i) fs = Some f" by simp
      with False fs' Cons.prems(2) show ?thesis by simp
    qed
  next
    case False
    with Cons.prems(1) obtain rest where
      rest: "update_rows P g fs = Some (r, rest)" and fs': "fs' = a # rest"
      by (auto split: option.splits)
    show ?thesis
    proof (cases "fid a = i")
      case True
      with Cons.prems(3) fs' show ?thesis by simp
    next
      case False
      with Cons.prems(3) have "find (\<lambda>h. fid h = i) fs = Some f" by simp
      from Cons.IH [OF rest Cons.prems(2) this] False fs' show ?thesis by simp
    qed
  qed
qed

lemma formById_update:
  assumes g: "\<And>h. evolves h (g h)" and f: "formById s i = Some f"
  shows "\<exists>f'. formById (snd (update P g s)) i = Some f' \<and> evolves f f'"
proof (cases "update_rows P g (forms s)")
  case None
  with f show ?thesis by (simp add: update_def evolves_refl)
next
  case (Some p)
  obtain r fs' where p: "p = (r, fs')" by (cases p)
  have "\<And>h. fid (g h) = fid h" using g by (simp add: evolves_def)
  from find_update_rows [OF Some [unfolded p] this f [unfolded formById_def]]
  have "formById (snd (update P g s)) i = Some f \<or> formById (snd (update P g s)) i = Some (g f)"
    by (simp add: update_def Some p formById_def)
  with g evolves_refl show ?thesis by blast
qed

lemma find_append_Some: "find P xs = Some x \<Longrightarrow> find P (xs @ ys) = Some x"
  by (induction xs) (auto split: if_splits)

lemma formById_CreateForm:
  assumes "formById s i = Some f"
  shows "formById (snd (CreateForm uuid now user d s)) i = Some f"
  using assms
  by (auto simp: CreateForm_def create_def Let_def formById_def find_append_Some
      split: option.splits)

lemma forms_GetFormContentByUrl:
  "snd (GetFormContentByUrl url s) = snd (update (\<lambda>f. shareURL f = url) (\<lambda>f. f\<lparr>visits := visits f + 1\<rparr>) s)"
  by (simp add: GetFormContentByUrl_def split: prod.splits sum.splits)

lemma forms_SubmitForm:
  "forms (snd (SubmitForm now url c s)) =
   forms (snd (update (\<lambda>f. shareURL f = url \<and> published f)
                      (\<lambda>f. f\<lparr>submissions := submissions f + 1\<rparr>) s))"
  by (simp add: SubmitForm_def split: prod.splits sum.splits)

lemma formById_forms_cong: "forms s = forms s' \<Longrightarrow> formById s i = formById s' i"
  by (simp add: formById_def)

lemma exec_evolves:
  assumes f: "formById s i = Some f"
  shows "\<exists>f'. formById (exec c s) i = Some f' \<and> evolves f f'"
proof (cases c)
  case (Call_GetFormStats user)
  with f show ?thesis by (auto simp: GetFormStats_def Let_def evolves_refl split: option.splits)
next
  case (Call_CreateForm uuid now user d)
  with formById_CreateForm [OF f] show ?thesis by (simp add: evolves_refl)
next
  case (Call_GetForm user)
  with f show ?thesis by (auto simp: GetForm_def evolves_refl split: option.splits)
next
  case (Call_GetFormById user j)
  with f show ?thesis by (auto simp: GetFormById_def evolves_refl split: option.splits)
next
  case (Call_UpdateFormContent user j c')
  show ?thesis
  proof (cases user)
    case None
    with Call_UpdateFormContent f show ?thesis
      by (simp add: UpdateFormContent_def evolves_refl)
  next
    case (Some u)
    have "\<And>h. evolves h (h\<lparr>content := c'\<rparr>)" by (simp add: evolves_def)
    from formById_update [of "\<lambda>h. h\<lparr>content := c'\<rparr>", OF this f]
    show ?thesis using Call_UpdateFormContent Some by (simp add: UpdateFormContent_def)
  qed
next
  case (Call_PublishForm user j)
  show ?thesis
  proof (cases user)
    case None
    with Call_PublishForm f show ?thesis
      by (simp add: PublishForm_def evolves_refl)
  next
    case (Some u)
    have "\<And>h. evolves h (h\<lparr>published := True\<rparr>)" by (simp add: evolves_def)
    from formById_update [of "\<lambda>h. h\<lparr>published := True\<rparr>", OF this f]
    show ?thesis using Call_PublishForm Some by (simp add: PublishForm_def)
  qed
next
  case (Call_GetFormContentByUrl url)
  have "\<And>h. evolves h (h\<lparr>visits := visits h + 1\<rparr>)" by (simp add: evolves_def)
  from formById_update [of "\<lambda>h. h\<lparr>visits := visits h + 1\<rparr>", OF this f]
  show ?thesis using Call_GetFormContentByUrl by (simp add: forms_GetFormContentByUrl)
next
  case (Call_SubmitForm now url c')
  have "\<And>h. evolves h (h\<lparr>submissions := submissions h + 1\<rparr>)" by (simp add: evolves_def)
  from formById_update [of "\<lambda>h. h\<lparr>submissions := submissions h + 1\<rparr>", OF this f]
  show ?thesis using Call_SubmitForm
    by (simp add: formById_forms_cong [OF forms_SubmitForm])
next
  case (Call_GetFormWithSubmissions user j)
  with f show ?thesis
    by (auto simp: GetFormWithSubmissions_def evolves_refl split: option.splits)
qed

lemma execs_evolves:
  "formById s i = Some f \<Longrightarrow> \<exists>f'. formById (execs cs s) i = Some f' \<and> evolves f f'"
proof (induction cs arbitrary: s f)
  case Nil
  then show ?case by (simp add: evolves_refl)
next
  case (Cons c cs)
  from exec_evolves [OF Cons.prems] obtain g where
    g: "formById (exec c s) i = Some g" and fg: "evolves f g" by blast
  from Cons.IH [OF g] obtain h where
    h: "formById (execs cs (exec c s)) i = Some h" and gh: "evolves g h" by blast
  from h evolves_trans [OF fg gh] show ?case by auto
qed

subsection \<open>The store's invariant\<close>

text \<open>
  The empty store is well-formed and every call keeps the store well-formed: an update
  keeps the keys and the tokens of the rows, a creation takes the next key and is refused
  on a token that is present.
\<close>

lemma wf_empty_store: "wf empty_store"
  by (simp add: wf_def empty_store_def)

lemma update_rows_map_key:
  assumes "update_rows P g fs = Some (r, fs')" and "\<And>h. k (g h) = k h"
  shows "map k fs' = map k fs"
  using assms
proof (induction fs arbitrary: r fs')
  case Nil
  then show ?case by simp
next
  case (Cons a fs)
  show ?case
  proof (cases "P a")
    case True
    with Cons.prems show ?thesis by auto
  next
    case False
    with Cons.prems(1) obtain rest where
      rest: "update_rows P g fs = Some (r, rest)" and fs': "fs' = a # rest"
      by (auto split: option.splits)
    from Cons.IH [OF rest Cons.prems(2)] fs' show ?thesis by simp
  qed
qed

lemma wf_forms_cong:
  assumes "wf s" and "map fid fs' = map fid (forms s)"
    and "map shareURL fs' = map shareURL (forms s)"
  shows "wf (s\<lparr>forms := fs'\<rparr>)"
proof -
  have "list_all (\<lambda>f. fid f < nextFormId s) fs' = list_all (\<lambda>i. i < nextFormId s) (map fid fs')"
    by (simp add: list.pred_map comp_def)
  also have "\<dots> = list_all (\<lambda>f. fid f < nextFormId s) (forms s)"
    by (simp only: assms(2)) (simp add: list.pred_map comp_def)
  finally show ?thesis using assms by (simp add: wf_def)
qed

lemma wf_update:
  assumes w: "wf s" and "\<And>h. fid (g h) = fid h" and "\<And>h. shareURL (g h) = shareURL h"
  shows "wf (snd (update P g s))"
proof (cases "update_rows P g (forms s)")
  case None
  with w show ?thesis by (simp add: update_def)
next
  case (Some p)
  obtain r fs' where p: "p = (r, fs')" by (cases p)
  from Some p have u: "update_rows P g (forms s) = Some (r, fs')" by simp
  have "wf (s\<lparr>forms := fs'\<rparr>)"
    using w update_rows_map_key [OF u, of fid] update_rows_map_key [OF u, of shareURL] assms(2,3)
    by (intro wf_forms_cong) simp_all
  with u show ?thesis by (simp add: update_def)
qed

lemma wf_CreateForm: "wf s \<Longrightarrow> wf (snd (CreateForm uuid now user d s))"
  by (auto simp: CreateForm_def create_def Let_def new_form_def wf_def list_all_iff
      split: option.splits)

lemma wf_SubmitForm:
  assumes w: "wf s"
  shows "wf (snd (SubmitForm now url c s))"
proof -
  obtain x s1 where r: "update (\<lambda>f. shareURL f = url \<and> published f)
      (\<lambda>f. f\<lparr>submissions := submissions f + 1\<rparr>) s = (x, s1)"
    by (cases "update (\<lambda>f. shareURL f = url \<and> published f)
      (\<lambda>f. f\<lparr>submissions := submissions f + 1\<rparr>) s")
  have "wf (snd (update (\<lambda>f. shareURL f = url \<and> published f)
      (\<lambda>f. f\<lparr>submissions := submissions f + 1\<rparr>) s))"
    by (rule wf_update [OF w]) simp_all
  with r have w1: "wf s1" by simp
  show ?thesis
  proof (cases x)
    case (Inl e)
    with r w1 show ?thesis by (simp add: SubmitForm_def)
  next
    case (Inr f)
    with r w1 show ?thesis by (auto simp: SubmitForm_def wf_def list_all_iff)
  qed
qed

lemma wf_exec: "wf s \<Longrightarrow> wf (exec c s)"
proof (cases c)
  case (Call_CreateForm uuid now user d)
  assume "wf s"
  with Call_CreateForm show ?thesis by (simp add: wf_CreateForm)
next
  case (Call_UpdateFormContent user j c')
  assume "wf s"
  then have "wf (snd (UpdateFormContent user j c' s))"
    by (cases user) (simp_all add: UpdateFormContent_def wf_update)
  with Call_UpdateFormContent show ?thesis by simp
next
  case (Call_PublishForm user j)
  assume "wf s"
  then have "wf (snd (PublishForm user j s))"
    by (cases user) (simp_all add: PublishForm_def wf_update)
  with Call_PublishForm show ?thesis by simp
next
  case (Call_GetFormContentByUrl url)
  assume "wf s"
  with Call_GetFormContentByUrl show ?thesis
    by (simp add: forms_GetFormContentByUrl wf_update)
next
  case (Call_SubmitForm now url c')
  assume "wf s"
  with Call_SubmitForm show ?thesis by (simp add: wf_SubmitForm)
qed (auto simp: GetFormStats_def GetForm_def GetFormById_def GetFormWithSubmissions_def Let_def
      split: option.splits)

lemma wf_execs: "wf s \<Longrightarrow> wf (execs cs s)"
  by (induction cs arbitrary: s) (simp_all add: wf_exec)

subsection \<open>Rounding\<close>

text \<open>
  The binade is the exponent it is meant to be, and rounding to an integer is off by at
  most one half.
\<close>

lemma binade_lower: assumes "0 < a" shows "2 powi (binade a) \<le> a"
proof -
  obtain p q where pq: "quotient_of a = (p, q)" by (cases "quotient_of a")
  then have q: "0 < q" and a: "a = of_int p / of_int q"
    by (auto simp: quotient_of_denom_pos quotient_of_div)
  with assms have p: "0 < p" by (simp add: zero_less_divide_iff)
  let ?c = "bitlen p - bitlen q"
  show ?thesis
  proof (cases "2 powi ?c \<le> a")
    case True
    with pq show ?thesis by (simp add: binade_def)
  next
    case False
    with pq have e: "binade a = ?c - 1" by (simp add: binade_def)
    from bitlen_bounds [OF p] have lp: "2 ^ nat (bitlen p - 1) \<le> p" by simp
    from bitlen_bounds [OF q] have uq: "q < 2 ^ nat (bitlen q)" by simp
    have bp: "1 \<le> bitlen p" using p by (simp add: bitlen_alt_def)
    have bq: "1 \<le> bitlen q" using q by (simp add: bitlen_alt_def)
    have "(2::rat) powi (?c - 1) = 2 powi (bitlen p - 1) / 2 powi (bitlen q)"
      by (simp add: power_int_diff)
    also have "\<dots> = 2 ^ nat (bitlen p - 1) / 2 ^ nat (bitlen q)"
      using bp bq by (simp add: power_int_def)
    also have "\<dots> \<le> of_int p / 2 ^ nat (bitlen q)"
    proof -
      from lp have "(of_int (2 ^ nat (bitlen p - 1)) :: rat) \<le> of_int p"
        by (simp only: of_int_le_iff)
      then show ?thesis by (simp add: divide_right_mono)
    qed
    also have "\<dots> \<le> of_int p / of_int q"
    proof -
      from uq have "(of_int q :: rat) \<le> of_int (2 ^ nat (bitlen q))"
        by (simp only: of_int_le_iff)
      with p q show ?thesis by (simp add: frac_le)
    qed
    finally show ?thesis using e a by simp
  qed
qed

lemma binade_upper: assumes "0 < a" shows "a < 2 powi (binade a + 1)"
proof -
  obtain p q where pq: "quotient_of a = (p, q)" by (cases "quotient_of a")
  then have q: "0 < q" and a: "a = of_int p / of_int q"
    by (auto simp: quotient_of_denom_pos quotient_of_div)
  with assms have p: "0 < p" by (simp add: zero_less_divide_iff)
  let ?c = "bitlen p - bitlen q"
  show ?thesis
  proof (cases "2 powi ?c \<le> a")
    case False
    with pq show ?thesis by (simp add: binade_def)
  next
    case True
    with pq have e: "binade a = ?c" by (simp add: binade_def)
    from bitlen_bounds [OF p] have up: "p < 2 ^ nat (bitlen p)" by simp
    from bitlen_bounds [OF q] have lq: "2 ^ nat (bitlen q - 1) \<le> q" by simp
    have bp: "1 \<le> bitlen p" using p by (simp add: bitlen_alt_def)
    have bq: "1 \<le> bitlen q" using q by (simp add: bitlen_alt_def)
    have "of_int p / of_int q \<le> of_int p / (2 ^ nat (bitlen q - 1) :: rat)"
    proof -
      from lq have "(of_int (2 ^ nat (bitlen q - 1)) :: rat) \<le> of_int q"
        by (simp only: of_int_le_iff)
      with p show ?thesis by (simp add: frac_le)
    qed
    also have "\<dots> < 2 ^ nat (bitlen p) / 2 ^ nat (bitlen q - 1)"
    proof -
      from up have "(of_int p :: rat) < of_int (2 ^ nat (bitlen p))"
        by (simp only: of_int_less_iff)
      then show ?thesis by (simp add: divide_strict_right_mono)
    qed
    also have "\<dots> = 2 powi (bitlen p) / 2 powi (bitlen q - 1)"
      using bp bq by (simp add: power_int_def)
    also have "\<dots> = 2 powi (?c + 1)"
      by (simp add: power_int_diff [symmetric] algebra_simps)
    finally show ?thesis using e a by simp
  qed
qed

lemma power_int_less_exp:
  assumes "(2::rat) powi m < 2 powi n" shows "m < n"
proof (rule ccontr)
  assume "\<not> m < n"
  then have "(2::rat) powi n \<le> 2 powi m" by (intro power_int_increasing) simp_all
  with assms show False by simp
qed

lemma binade_eqI:
  assumes a: "0 < a" and lo: "2 powi e \<le> a" and hi: "a < 2 powi (e + 1)"
  shows "binade a = e"
proof -
  from binade_lower [OF a] hi have "(2::rat) powi (binade a) < 2 powi (e + 1)" by simp
  then have "binade a < e + 1" by (rule power_int_less_exp)
  moreover from lo binade_upper [OF a] have "(2::rat) powi e < 2 powi (binade a + 1)" by simp
  then have "e < binade a + 1" by (rule power_int_less_exp)
  ultimately show ?thesis by simp
qed

lemma round_half_even_error: "\<bar>of_int (round_half_even y) - y\<bar> \<le> 1 / 2"
proof -
  have "of_int \<lfloor>y\<rfloor> \<le> y" and "y < of_int \<lfloor>y\<rfloor> + 1" by linarith+
  then show ?thesis by (auto simp: round_half_even_def Let_def)
qed

lemma round_half_even_pos: "1 \<le> y \<Longrightarrow> 1 \<le> round_half_even y"
proof -
  assume "1 \<le> y"
  then have "1 \<le> \<lfloor>y\<rfloor>" by simp
  then show ?thesis by (auto simp: round_half_even_def Let_def)
qed


lemma round_half_even_eqI:
  assumes "\<bar>y - of_int m\<bar> < 1 / 2"
  shows "round_half_even y = m"
proof (cases "of_int m \<le> y")
  case True
  with assms have "y < of_int m + 1" by linarith
  with True have f: "\<lfloor>y\<rfloor> = m" by linarith
  from assms True have "y - of_int m < 1 / 2" by linarith
  with f show ?thesis by (simp add: round_half_even_def Let_def)
next
  case False
  with assms have "of_int m - 1 \<le> y" by linarith
  with False have f: "\<lfloor>y\<rfloor> = m - 1" by linarith
  from assms False have "1 / 2 < y - of_int (m - 1)" by simp
  with f show ?thesis by (auto simp: round_half_even_def Let_def)
qed

text \<open>
  The test \<^verbatim>\<open>visits > 0\<close> on the number is the test on the integer; a value below 128 is
  rounded to a double at most \<open>1 / 2 ^ 47\<close> away; a value within \<open>1 / 2 ^ 47\<close> of 100 is
  rounded to 100.
\<close>

lemma fgt_num_zero: "fgt (num n) (Finite 0) \<longleftrightarrow> 0 < n"
proof (cases "n = 0")
  case True
  then show ?thesis by (simp add: num_def round_double_def)
next
  case False
  let ?x = "of_int n :: rat"
  let ?a = "\<bar>?x\<bar>"
  let ?e = "max (binade ?a) (- 1022)"
  let ?u = "(2::rat) powi (?e - 52)"
  let ?r = "of_int (round_half_even (?a / ?u)) * ?u"
  have u: "0 < ?u" by simp
  from False have a1: "1 \<le> ?a" by (cases "0 < n") simp_all
  then have a0: "0 < ?a" by linarith
  have "?u \<le> ?a"
  proof (cases "- 1022 \<le> binade ?a")
    case True
    then have "?u = 2 powi (binade ?a - 52)" by (simp add: max_def)
    also have "\<dots> \<le> 2 powi (binade ?a)" by (rule power_int_increasing) simp_all
    also have "\<dots> \<le> ?a" by (rule binade_lower [OF a0])
    finally show ?thesis .
  next
    case False
    then have "?u = 2 powi (- 1074)" by (simp add: max_def)
    also have "\<dots> \<le> 2 powi 0" by (rule power_int_increasing) simp_all
    also have "\<dots> \<le> ?a" using a1 by simp
    finally show ?thesis .
  qed
  with u have "1 \<le> ?a / ?u" by (simp add: le_divide_eq)
  then have "1 \<le> round_half_even (?a / ?u)" by (rule round_half_even_pos)
  then have "(0::rat) < of_int (round_half_even (?a / ?u))" by simp
  with u have r: "0 < ?r" by (simp add: zero_less_mult_iff)
  show ?thesis
  proof (cases "0 < n")
    case True
    with r False show ?thesis
      by (simp add: num_def round_double_def Let_def)
  next
    case neg: False
    with r False have "\<not> 0 < - ?r" by simp
    with neg False show ?thesis
      by (simp add: num_def round_double_def Let_def)
  qed
qed



text \<open>
  A value in the normal range is rounded to the multiple of the spacing of its binade that
  is less than half a spacing away.
\<close>

lemma round_double_eqI:
  assumes x: "0 < x" and lo: "2 powi e \<le> x" and hi: "x < 2 powi (e + 1)"
    and emin: "- 1022 \<le> e" and emax: "e \<le> 1022"
    and near: "\<bar>x / 2 powi (e - 52) - of_int m\<bar> < 1 / 2"
  shows "round_double x = Finite (of_int m * 2 powi (e - 52))"
proof -
  let ?u = "(2::rat) powi (e - 52)"
  let ?r = "of_int m * ?u"
  have u: "0 < ?u" by simp
  have b: "binade x = e" using x lo hi by (rule binade_eqI)
  have m: "round_half_even (x / 2 powi (e - 52)) = m" using near by (rule round_half_even_eqI)
  have "?u \<le> 2 powi e" by (rule power_int_increasing) simp_all
  with lo have ux: "?u \<le> x" by simp
  have "\<bar>?r - x\<bar> = \<bar>of_int m - x / ?u\<bar> * ?u"
    using u by (simp add: abs_mult [symmetric] left_diff_distrib abs_mult_pos)
  also have "\<dots> \<le> 1 / 2 * ?u"
    using u round_half_even_error [of "x / ?u"] m by (intro mult_right_mono) simp_all
  finally have "?r - x \<le> 1 / 2 * ?u" by linarith
  with ux u have "?r \<le> 2 * x" by linarith
  also have "\<dots> < 2 * 2 powi (e + 1)" using hi by simp
  also have "\<dots> = 2 powi (e + 2)" by (simp add: power_int_add)
  also have "\<dots> \<le> 2 powi 1024" using emax by (intro power_int_increasing) simp_all
  finally have "\<not> 2 powi 1024 \<le> ?r" by simp
  moreover have "max (binade x) (- 1022) = e" using b emin by simp
  ultimately show ?thesis using x m
    by (simp add: round_double_def Let_def)
qed






lemma round_bounce: "round_double (20266198323167231 / 281474976710656) = Finite 72"
  using round_double_eqI [of "20266198323167231 / 281474976710656" 6 5066549580791808]
  by simp


lemma bounce_7_25:
  "fsub (Finite 100) (Finite (7881299347898369 / 281474976710656)) = Finite 72"
  by (simp add: round_bounce)

text \<open>1 answer on 2 visits: every step is exact.\<close>

lemma round_1: "round_double 1 = Finite 1"
  using round_double_eqI [of 1 0 "2 ^ 52"] by simp

lemma round_2: "round_double 2 = Finite 2"
  using round_double_eqI [of 2 1 "2 ^ 52"] by simp

lemma round_half: "round_double (1 / 2) = Finite (1 / 2)"
  using round_double_eqI [of "1 / 2" "- 1" "2 ^ 52"] by simp

lemma round_50: "round_double 50 = Finite 50"
  using round_double_eqI [of 50 5 "50 * 2 ^ 47"] by simp

subsection \<open>Ownership\<close>

text \<open>
  C1. A user \<open>u\<close> and a stored form \<open>f\<close> of another owner. Asked for by its id,
  \<^verbatim>\<open>GetFormById\<close> and \<^verbatim>\<open>GetFormWithSubmissions\<close> answer \<^verbatim>\<open>null\<close>, \<^verbatim>\<open>UpdateFormContent\<close> and
  \<^verbatim>\<open>PublishForm\<close> throw the store's record-not-found error, and the store (so the form)
  stays as it was. The other owner-scoped actions neither return nor change it:
  \<^verbatim>\<open>GetForm\<close> returns the forms of \<open>u\<close> and no other, \<^verbatim>\<open>GetFormStats\<close> returns what it
  returns on the store without \<open>f\<close>, and \<^verbatim>\<open>CreateForm\<close> leaves \<open>f\<close> stored as it is and does
  not return its id.
\<close>

theorem foreign_form_not_found:
  assumes "wf s" and "f \<in> set (forms s)" and "userId f \<noteq> user_id u"
  shows "GetFormById (Some u) (fid f) s = (Inr None, s) \<and>
         UpdateFormContent (Some u) (fid f) c s = (Inl RecordNotFound, s) \<and>
         PublishForm (Some u) (fid f) s = (Inl RecordNotFound, s) \<and>
         GetFormWithSubmissions (Some u) (fid f) s = (Inr None, s) \<and>
         (\<exists>rows. GetForm (Some u) s = (Inr rows, s) \<and> f \<notin> set rows \<and>
            set rows = {h \<in> set (forms s). userId h = user_id u}) \<and>
         (\<exists>st. GetFormStats (Some u) s = (Inr st, s) \<and>
            GetFormStats (Some u) (s\<lparr>forms := remove1 f (forms s)\<rparr>) =
              (Inr st, s\<lparr>forms := remove1 f (forms s)\<rparr>)) \<and>
         formById (snd (CreateForm uuid now (Some u) d s)) (fid f) = Some f \<and>
         fst (CreateForm uuid now (Some u) d s) \<noteq> Inr (fid f)"
proof -
  have none: "\<forall>h\<in>set (forms s). \<not> (userId h = user_id u \<and> fid h = fid f)"
    using assms wf_fid_eq by blast
  then have nf: "find (\<lambda>h. userId h = user_id u \<and> fid h = fid f) (forms s) = None"
    by (simp add: find_None_iff)
  then have byid: "GetFormById (Some u) (fid f) s = (Inr None, s)"
    by (simp add: GetFormById_def findUnique_def)
  have upd: "UpdateFormContent (Some u) (fid f) c s = (Inl RecordNotFound, s)"
    using none by (simp add: UpdateFormContent_def update_no_match)
  have pub: "PublishForm (Some u) (fid f) s = (Inl RecordNotFound, s)"
    using none by (simp add: PublishForm_def update_no_match)
  from nf have subs: "GetFormWithSubmissions (Some u) (fid f) s = (Inr None, s)"
    by (simp add: GetFormWithSubmissions_def findUnique_def)
  let ?rows = "sort_key (\<lambda>h. - createdAt h) (filter (\<lambda>h. userId h = user_id u) (forms s))"
  have "GetForm (Some u) s = (Inr ?rows, s)" by (simp add: GetForm_def)
  moreover have "set ?rows = {h \<in> set (forms s). userId h = user_id u}" by simp
  moreover from this assms(3) have "f \<notin> set ?rows" by simp
  ultimately have all: "\<exists>rows. GetForm (Some u) s = (Inr rows, s) \<and> f \<notin> set rows \<and>
      set rows = {h \<in> set (forms s). userId h = user_id u}" by blast
  have "filter (\<lambda>h. userId h = user_id u) (remove1 f (forms s)) =
      filter (\<lambda>h. userId h = user_id u) (forms s)"
    using assms(3) by (simp add: filter_remove1 remove1_idem)
  then have stats: "\<exists>st. GetFormStats (Some u) s = (Inr st, s) \<and>
      GetFormStats (Some u) (s\<lparr>forms := remove1 f (forms s)\<rparr>) =
        (Inr st, s\<lparr>forms := remove1 f (forms s)\<rparr>)"
    by (simp add: GetFormStats_def Let_def)
  from assms have "formById s (fid f) = Some f" by (simp add: formById_stored)
  then have kept: "formById (snd (CreateForm uuid now (Some u) d s)) (fid f) = Some f"
    by (rule formById_CreateForm)
  from assms have "fid f \<noteq> nextFormId s" using wf_fresh_id by force
  then have other: "fst (CreateForm uuid now (Some u) d s) \<noteq> Inr (fid f)"
    by (auto simp: CreateForm_def create_def Let_def new_form_def)
  from byid upd pub subs all stats kept other show ?thesis by blast
qed

theorem foreign_form_not_found_witness:
  "wf sample_store \<and> form_a \<in> set (forms sample_store) \<and> userId form_a \<noteq> user_id bob \<and>
   GetFormById (Some bob) 1 sample_store = (Inr None, sample_store) \<and>
   UpdateFormContent (Some bob) 1 ''[x]'' sample_store = (Inl RecordNotFound, sample_store) \<and>
   PublishForm (Some bob) 1 sample_store = (Inl RecordNotFound, sample_store) \<and>
   GetFormWithSubmissions (Some bob) 1 sample_store = (Inr None, sample_store) \<and>
   (\<exists>rows. GetForm (Some bob) sample_store = (Inr rows, sample_store) \<and>
      form_a \<notin> set rows) \<and>
   (\<exists>st. GetFormStats (Some bob) sample_store = (Inr st, sample_store) \<and>
      GetFormStats (Some bob) (sample_store\<lparr>forms := [form_b]\<rparr>) =
        (Inr st, sample_store\<lparr>forms := [form_b]\<rparr>)) \<and>
   formById (snd (CreateForm ''tok-3'' 60 (Some bob)
       \<lparr>in_name = ''Quiz'', in_description = None\<rparr> sample_store)) 1 = Some form_a \<and>
   fst (CreateForm ''tok-3'' 60 (Some bob)
       \<lparr>in_name = ''Quiz'', in_description = None\<rparr> sample_store) \<noteq> Inr 1"
proof -
  have h1: "wf sample_store" by (rule wf_sample_store)
  have h2: "form_a \<in> set (forms sample_store)" by (simp add: sample_store_def)
  have h3: "userId form_a \<noteq> user_id bob" by (simp add: form_a_def bob_def)
  have i: "fid form_a = 1" by (simp add: form_a_def)
  have r: "remove1 form_a (forms sample_store) = [form_b]" by (simp add: forms_sample_store)
  note t = foreign_form_not_found [OF h1 h2 h3, of "''[x]''" "''tok-3''" 60
      "\<lparr>in_name = ''Quiz'', in_description = None\<rparr>", unfolded i r]
  from t have "\<exists>rows. GetForm (Some bob) sample_store = (Inr rows, sample_store) \<and>
      form_a \<notin> set rows" by blast
  with t h1 h2 h3 show ?thesis by blast
qed

text \<open>
  C9. When no stored form has the given id and the caller as owner,
  \<^verbatim>\<open>UpdateFormContent\<close> throws the store's record-not-found error and writes nothing; when
  the id is that of a form of the caller, the content of that form, and of no other, is
  replaced by the given string, and the updated form is returned.
\<close>

theorem UpdateFormContent_scoped:
  "((\<forall>h\<in>set (forms s). \<not> (fid h = i \<and> userId h = user_id u)) \<longrightarrow>
      UpdateFormContent (Some u) i c s = (Inl RecordNotFound, s)) \<and>
   (wf s' \<and> f \<in> set (forms s') \<and> userId f = user_id u' \<longrightarrow>
      UpdateFormContent (Some u') (fid f) c' s' =
        (Inr (f\<lparr>content := c'\<rparr>),
         s'\<lparr>forms := map (\<lambda>h. if fid h = fid f then h\<lparr>content := c'\<rparr> else h) (forms s')\<rparr>))"
proof (intro conjI impI)
  assume "\<forall>h\<in>set (forms s). \<not> (fid h = i \<and> userId h = user_id u)"
  then have "\<forall>h\<in>set (forms s). \<not> (userId h = user_id u \<and> fid h = i)" by blast
  then show "UpdateFormContent (Some u) i c s = (Inl RecordNotFound, s)"
    by (simp add: UpdateFormContent_def update_no_match)
next
  assume a: "wf s' \<and> f \<in> set (forms s') \<and> userId f = user_id u'"
  then have "\<forall>h\<in>set (forms s'). (userId h = user_id u' \<and> fid h = fid f) \<longleftrightarrow> fid h = fid f"
    using wf_fid_eq by blast
  with a show "UpdateFormContent (Some u') (fid f) c' s' =
        (Inr (f\<lparr>content := c'\<rparr>),
         s'\<lparr>forms := map (\<lambda>h. if fid h = fid f then h\<lparr>content := c'\<rparr> else h) (forms s')\<rparr>)"
    by (simp add: UpdateFormContent_def update_match [where k = fid] wf_distinct_fid)
qed

theorem UpdateFormContent_scoped_witness:
  "list_all (\<lambda>h. \<not> (fid h = 2 \<and> userId h = user_id alice)) (forms sample_store) \<and>
   UpdateFormContent (Some alice) 2 ''[x]'' sample_store = (Inl RecordNotFound, sample_store) \<and>
   wf sample_store \<and> form_b \<in> set (forms sample_store) \<and> userId form_b = user_id bob \<and>
   UpdateFormContent (Some bob) 2 ''[x]'' sample_store =
     (Inr (form_b\<lparr>content := ''[x]''\<rparr>),
      sample_store\<lparr>forms := [form_a, form_b\<lparr>content := ''[x]''\<rparr>]\<rparr>)"
proof -
  have h1: "\<forall>h\<in>set (forms sample_store). \<not> (fid h = 2 \<and> userId h = user_id alice)"
    by (simp add: sample_store_def form_a_def form_b_def alice_def)
  have h2: "wf sample_store \<and> form_b \<in> set (forms sample_store) \<and> userId form_b = user_id bob"
    using wf_sample_store by (simp add: sample_store_def form_b_def bob_def)
  have ids: "fid form_b = 2" "fid form_a = 1"
    by (simp_all add: form_a_def form_b_def)
  have fs: "forms sample_store = [form_a, form_b]" by (simp add: sample_store_def)
  from UpdateFormContent_scoped [of sample_store 2 alice "''[x]''" sample_store form_b bob "''[x]''"]
    h1 h2 ids fs
  show ?thesis by (simp add: list_all_iff)
qed

subsection \<open>Authentication and validation\<close>

text \<open>
  C7. Without a current user, each of the seven owner-scoped actions (\<^verbatim>\<open>CreateForm\<close> on a
  valid input) throws \<open>UserNotFoundErr\<close> and leaves the store as it was.
\<close>

theorem unauthenticated_rejected:
  "4 \<le> length (in_name d) \<Longrightarrow>
   CreateForm uuid now None d s = (Inl UserNotFoundErr, s) \<and>
   GetForm None s = (Inl UserNotFoundErr, s) \<and>
   GetFormById None i s = (Inl UserNotFoundErr, s) \<and>
   UpdateFormContent None i c s = (Inl UserNotFoundErr, s) \<and>
   PublishForm None i s = (Inl UserNotFoundErr, s) \<and>
   GetFormWithSubmissions None i s = (Inl UserNotFoundErr, s) \<and>
   GetFormStats None s = (Inl UserNotFoundErr, s)"
  by (simp add: CreateForm_def safeParse_def GetForm_def GetFormById_def UpdateFormContent_def
      PublishForm_def GetFormWithSubmissions_def GetFormStats_def)

theorem unauthenticated_rejected_witness:
  "4 \<le> length (in_name \<lparr>in_name = ''Survey'', in_description = None\<rparr>) \<and>
   CreateForm ''tok-3'' 40 None \<lparr>in_name = ''Survey'', in_description = None\<rparr> sample_store
     = (Inl UserNotFoundErr, sample_store) \<and>
   GetForm None sample_store = (Inl UserNotFoundErr, sample_store) \<and>
   GetFormById None 1 sample_store = (Inl UserNotFoundErr, sample_store) \<and>
   UpdateFormContent None 1 ''[x]'' sample_store = (Inl UserNotFoundErr, sample_store) \<and>
   PublishForm None 1 sample_store = (Inl UserNotFoundErr, sample_store) \<and>
   GetFormWithSubmissions None 1 sample_store = (Inl UserNotFoundErr, sample_store) \<and>
   GetFormStats None sample_store = (Inl UserNotFoundErr, sample_store)"
proof -
  have h: "4 \<le> length (in_name \<lparr>in_name = ''Survey'', in_description = None\<rparr>)" by simp
  from unauthenticated_rejected [OF h, of "''tok-3''" 40 sample_store 1 "''[x]''"] h
  show ?thesis by blast
qed

text \<open>
  C10. \<^verbatim>\<open>CreateForm\<close> validates before it asks for the user: on a name shorter than 4 an
  unauthenticated caller gets the validation error, not \<open>UserNotFoundErr\<close>.
\<close>

theorem validation_before_identity:
  "length (in_name d) < 4 \<Longrightarrow>
   CreateForm uuid now None d s = (Inl FormNotValid, s) \<and>
   fst (CreateForm uuid now None d s) \<noteq> Inl UserNotFoundErr"
  by (simp add: CreateForm_def safeParse_def)

theorem validation_before_identity_witness:
  "length (in_name \<lparr>in_name = ''abc'', in_description = None\<rparr>) < 4 \<and>
   CreateForm ''tok-3'' 40 None \<lparr>in_name = ''abc'', in_description = None\<rparr> sample_store
     = (Inl FormNotValid, sample_store) \<and>
   fst (CreateForm ''tok-3'' 40 None \<lparr>in_name = ''abc'', in_description = None\<rparr> sample_store)
     \<noteq> Inl UserNotFoundErr"
proof -
  have h: "length (in_name \<lparr>in_name = ''abc'', in_description = None\<rparr>) < 4" by simp
  from validation_before_identity [OF h, of "''tok-3''" 40 sample_store] h
  show ?thesis by blast
qed

text \<open>
  C5. On a name shorter than 4 \<^verbatim>\<open>CreateForm\<close> throws the validation error and the store is
  as it was, whoever calls. On a valid input of an authenticated user, the generated token
  being new to the store, it appends one form with the next id, which no stored form has,
  owned by that user, and returns that id.
\<close>

theorem CreateForm_validates_then_inserts:
  "(length (in_name d) < 4 \<longrightarrow> CreateForm uuid now user d s = (Inl FormNotValid, s)) \<and>
   (wf s' \<and> 4 \<le> length (in_name d') \<and> uuid' \<notin> shareURL ` set (forms s') \<longrightarrow>
      CreateForm uuid' now' (Some u) d' s' =
        (Inr (nextFormId s'),
         s'\<lparr>forms := forms s' @
               [new_form (nextFormId s') uuid' now' (user_id u) (in_name d') (in_description d')],
             nextFormId := nextFormId s' + 1\<rparr>) \<and>
      nextFormId s' \<notin> fid ` set (forms s') \<and>
      fid (new_form (nextFormId s') uuid' now' (user_id u) (in_name d') (in_description d'))
        = nextFormId s' \<and>
      userId (new_form (nextFormId s') uuid' now' (user_id u) (in_name d') (in_description d'))
        = user_id u)"
proof (intro conjI impI)
  assume "length (in_name d) < 4"
  then show "CreateForm uuid now user d s = (Inl FormNotValid, s)"
    by (simp add: CreateForm_def safeParse_def)
next
  assume a: "wf s' \<and> 4 \<le> length (in_name d') \<and> uuid' \<notin> shareURL ` set (forms s')"
  then show "CreateForm uuid' now' (Some u) d' s' =
        (Inr (nextFormId s'),
         s'\<lparr>forms := forms s' @
               [new_form (nextFormId s') uuid' now' (user_id u) (in_name d') (in_description d')],
             nextFormId := nextFormId s' + 1\<rparr>)"
    by (simp add: CreateForm_def safeParse_def create_def Let_def new_form_def)
  from a show "nextFormId s' \<notin> fid ` set (forms s')" by (simp add: wf_fresh_id)
  show "fid (new_form (nextFormId s') uuid' now' (user_id u) (in_name d') (in_description d'))
        = nextFormId s'" by (simp add: new_form_def)
  show "userId (new_form (nextFormId s') uuid' now' (user_id u) (in_name d') (in_description d'))
        = user_id u" by (simp add: new_form_def)
qed

theorem CreateForm_validates_then_inserts_witness:
  "length (in_name \<lparr>in_name = ''abc'', in_description = None\<rparr>) < 4 \<and>
   CreateForm ''tok-3'' 60 (Some bob) \<lparr>in_name = ''abc'', in_description = None\<rparr> sample_store
     = (Inl FormNotValid, sample_store) \<and>
   wf sample_store \<and> 4 \<le> length (in_name \<lparr>in_name = ''Quiz'', in_description = None\<rparr>) \<and>
   ''tok-3'' \<notin> shareURL ` set (forms sample_store) \<and>
   CreateForm ''tok-3'' 60 (Some bob) \<lparr>in_name = ''Quiz'', in_description = None\<rparr> sample_store
     = (Inr 3,
        sample_store\<lparr>forms := [form_a, form_b,
            \<lparr>fid = 3, userId = ''bob'', createdAt = 60, published = False, name = ''Quiz'',
             description = None, content = [], visits = 0, submissions = 0,
             shareURL = ''tok-3''\<rparr>],
          nextFormId := 4\<rparr>)"
proof -
  have h1: "length (in_name \<lparr>in_name = ''abc'', in_description = None\<rparr>) < 4" by simp
  have h2: "wf sample_store \<and>
      4 \<le> length (in_name \<lparr>in_name = ''Quiz'', in_description = None\<rparr>) \<and>
      ''tok-3'' \<notin> shareURL ` set (forms sample_store)"
    using wf_sample_store by (simp add: forms_sample_store form_a_def form_b_def)
  have v: "nextFormId sample_store = 3" "user_id bob = ''bob''"
    by (simp_all add: sample_store_def bob_def)
  from CreateForm_validates_then_inserts [where d = "\<lparr>in_name = ''abc'', in_description = None\<rparr>"
      and uuid = "''tok-3''" and now = 60 and user = "Some bob" and s = sample_store
      and s' = sample_store and d' = "\<lparr>in_name = ''Quiz'', in_description = None\<rparr>"
      and uuid' = "''tok-3''" and now' = 60 and u = bob] h1 h2 v
  show ?thesis by (simp add: forms_sample_store new_form_def)
qed

subsection \<open>The public actions\<close>

text \<open>
  C2. When a stored form has the given share token and is published, \<^verbatim>\<open>SubmitForm\<close>
  returns it with its submissions counter one higher, that row alone is rewritten, and
  exactly one submission with the given content and the form's id is appended. When no
  stored form has the token and is published, the call throws the store's
  record-not-found error: no submission is created and no counter changes.
\<close>

theorem SubmitForm_published_only:
  "(wf s \<and> f \<in> set (forms s) \<and> shareURL f = url \<and> published f \<longrightarrow>
      SubmitForm now url c s =
        (Inr (f\<lparr>submissions := submissions f + 1\<rparr>),
         s\<lparr>forms := map (\<lambda>h. if fid h = fid f then h\<lparr>submissions := submissions h + 1\<rparr> else h)
                       (forms s),
           formSubmissions := formSubmissions s @
             [\<lparr>sub_id = nextSubmissionId s, formId = fid f, sub_createdAt = now,
               sub_content = c\<rparr>],
           nextSubmissionId := nextSubmissionId s + 1\<rparr>)) \<and>
   ((\<forall>h\<in>set (forms s'). \<not> (shareURL h = url' \<and> published h)) \<longrightarrow>
      SubmitForm now' url' c' s' = (Inl RecordNotFound, s'))"
proof (intro conjI impI)
  assume a: "wf s \<and> f \<in> set (forms s) \<and> shareURL f = url \<and> published f"
  then have w: "wf s" and fin: "f \<in> set (forms s)" and u: "shareURL f = url"
    and p: "published f" by simp_all
  have m: "\<forall>h\<in>set (forms s). (shareURL h = url \<and> published h) \<longleftrightarrow> fid h = fid f"
  proof
    fix h assume h: "h \<in> set (forms s)"
    show "(shareURL h = url \<and> published h) \<longleftrightarrow> fid h = fid f"
    proof
      assume "shareURL h = url \<and> published h"
      with u have "shareURL h = shareURL f" by simp
      with wf_shareURL_eq [OF w fin h] show "fid h = fid f" by simp
    next
      assume "fid h = fid f"
      with wf_fid_eq [OF w fin h] have "h = f" by simp
      with u p show "shareURL h = url \<and> published h" by simp
    qed
  qed
  have "update (\<lambda>h. shareURL h = url \<and> published h)
                  (\<lambda>h. h\<lparr>submissions := submissions h + 1\<rparr>) s =
     (Inr (f\<lparr>submissions := submissions f + 1\<rparr>),
      s\<lparr>forms := map (\<lambda>h. if fid h = fid f then h\<lparr>submissions := submissions h + 1\<rparr> else h)
                    (forms s)\<rparr>)"
    using update_match [where k = fid, OF wf_distinct_fid [OF w] fin m] by simp
  then show "SubmitForm now url c s =
        (Inr (f\<lparr>submissions := submissions f + 1\<rparr>),
         s\<lparr>forms := map (\<lambda>h. if fid h = fid f then h\<lparr>submissions := submissions h + 1\<rparr> else h)
                       (forms s),
           formSubmissions := formSubmissions s @
             [\<lparr>sub_id = nextSubmissionId s, formId = fid f, sub_createdAt = now,
               sub_content = c\<rparr>],
           nextSubmissionId := nextSubmissionId s + 1\<rparr>)"
    by (simp add: SubmitForm_def)
next
  assume "\<forall>h\<in>set (forms s'). \<not> (shareURL h = url' \<and> published h)"
  then have "update (\<lambda>h. shareURL h = url' \<and> published h)
                  (\<lambda>h. h\<lparr>submissions := submissions h + 1\<rparr>) s' = (Inl RecordNotFound, s')"
    by (rule update_no_match)
  then show "SubmitForm now' url' c' s' = (Inl RecordNotFound, s')"
    by (simp add: SubmitForm_def)
qed

theorem SubmitForm_published_only_witness:
  "wf sample_store \<and> form_a \<in> set (forms sample_store) \<and> shareURL form_a = ''tok-1'' \<and>
   published form_a \<and>
   SubmitForm 50 ''tok-1'' ''{b:2}'' sample_store =
     (Inr (form_a\<lparr>submissions := 2\<rparr>),
      sample_store\<lparr>forms := [form_a\<lparr>submissions := 2\<rparr>, form_b],
        formSubmissions := formSubmissions sample_store @
          [\<lparr>sub_id = 2, formId = 1, sub_createdAt = 50, sub_content = ''{b:2}''\<rparr>],
        nextSubmissionId := 3\<rparr>) \<and>
   list_all (\<lambda>h. \<not> (shareURL h = ''tok-2'' \<and> published h)) (forms sample_store) \<and>
   SubmitForm 50 ''tok-2'' ''{b:2}'' sample_store = (Inl RecordNotFound, sample_store)"
proof -
  have h1: "wf sample_store \<and> form_a \<in> set (forms sample_store) \<and>
      shareURL form_a = ''tok-1'' \<and> published form_a"
    using wf_sample_store by (simp add: forms_sample_store form_a_def)
  have h2: "\<forall>h\<in>set (forms sample_store). \<not> (shareURL h = ''tok-2'' \<and> published h)"
    by (simp add: forms_sample_store form_a_def form_b_def)
  have v: "fid form_a = 1" "fid form_b = 2" "submissions form_a = 1"
    "nextSubmissionId sample_store = 2"
    by (simp_all add: form_a_def form_b_def sample_store_def)
  from SubmitForm_published_only [where s = sample_store and f = form_a and url = "''tok-1''"
      and now = 50 and c = "''{b:2}''" and s' = sample_store and url' = "''tok-2''"
      and now' = 50 and c' = "''{b:2}''"] h1 h2 v
  show ?thesis by (simp add: forms_sample_store list_all_iff)
qed

text \<open>
  C3. When a stored form has the given share token, published or not,
  \<^verbatim>\<open>GetFormContentByUrl\<close> returns its content and its visits counter, and no other, is
  one higher. When no stored form has the token, the call throws the store's
  record-not-found error and the store is as it was.
\<close>

theorem GetFormContentByUrl_counts_visit:
  "(wf s \<and> f \<in> set (forms s) \<and> shareURL f = url \<longrightarrow>
      GetFormContentByUrl url s =
        (Inr (content f),
         s\<lparr>forms := map (\<lambda>h. if fid h = fid f then h\<lparr>visits := visits h + 1\<rparr> else h)
                       (forms s)\<rparr>)) \<and>
   ((\<forall>h\<in>set (forms s'). shareURL h \<noteq> url') \<longrightarrow>
      GetFormContentByUrl url' s' = (Inl RecordNotFound, s'))"
proof (intro conjI impI)
  assume a: "wf s \<and> f \<in> set (forms s) \<and> shareURL f = url"
  then have w: "wf s" and fin: "f \<in> set (forms s)" and u: "url = shareURL f"
    by simp_all
  have m: "\<forall>h\<in>set (forms s). shareURL h = url \<longleftrightarrow> fid h = fid f"
    unfolding u using wf_shareURL_iff_fid [OF w fin] by simp
  have "update (\<lambda>h. shareURL h = url) (\<lambda>h. h\<lparr>visits := visits h + 1\<rparr>) s =
     (Inr (f\<lparr>visits := visits f + 1\<rparr>),
      s\<lparr>forms := map (\<lambda>h. if fid h = fid f then h\<lparr>visits := visits h + 1\<rparr> else h) (forms s)\<rparr>)"
    using update_match [where k = fid, OF wf_distinct_fid [OF w] fin m] by simp
  then show "GetFormContentByUrl url s =
        (Inr (content f),
         s\<lparr>forms := map (\<lambda>h. if fid h = fid f then h\<lparr>visits := visits h + 1\<rparr> else h)
                       (forms s)\<rparr>)"
    by (simp add: GetFormContentByUrl_def)
next
  assume "\<forall>h\<in>set (forms s'). shareURL h \<noteq> url'"
  then have "update (\<lambda>h. shareURL h = url') (\<lambda>h. h\<lparr>visits := visits h + 1\<rparr>) s'
      = (Inl RecordNotFound, s')"
    by (rule update_no_match)
  then show "GetFormContentByUrl url' s' = (Inl RecordNotFound, s')"
    by (simp add: GetFormContentByUrl_def)
qed

theorem GetFormContentByUrl_counts_visit_witness:
  "wf sample_store \<and> form_b \<in> set (forms sample_store) \<and> shareURL form_b = ''tok-2'' \<and>
   \<not> published form_b \<and>
   GetFormContentByUrl ''tok-2'' sample_store =
     (Inr (content form_b), sample_store\<lparr>forms := [form_a, form_b\<lparr>visits := 1\<rparr>]\<rparr>) \<and>
   list_all (\<lambda>h. shareURL h \<noteq> ''tok-9'') (forms sample_store) \<and>
   GetFormContentByUrl ''tok-9'' sample_store = (Inl RecordNotFound, sample_store)"
proof -
  have h1: "wf sample_store \<and> form_b \<in> set (forms sample_store) \<and> shareURL form_b = ''tok-2''"
    using wf_sample_store by (simp add: forms_sample_store form_b_def)
  have h2: "\<forall>h\<in>set (forms sample_store). shareURL h \<noteq> ''tok-9''"
    by (simp add: forms_sample_store form_a_def form_b_def)
  have v: "fid form_a = 1" "fid form_b = 2" "visits form_b = 0" "\<not> published form_b"
    by (simp_all add: form_a_def form_b_def)
  from GetFormContentByUrl_counts_visit [where s = sample_store and f = form_b
      and url = "''tok-2''" and s' = sample_store and url' = "''tok-9''"] h1 h2 v
  show ?thesis by (simp add: forms_sample_store list_all_iff)
qed

subsection \<open>Statistics\<close>




text \<open>The statistics of alice in the sample store: two visits, one answer.\<close>

lemma GetFormStats_alice:
  "GetFormStats (Some alice) sample_store =
     (Inr \<lparr>total_visits = 2, total_submissions = 1, submissionRate = Finite 50,
           bounceRate = Finite 50\<rparr>,
      sample_store)"
proof -
  have "fgt (num 2) (Finite 0)" by (simp add: fgt_num_zero)
  then show ?thesis
    by (simp add: GetFormStats_def Let_def or_zero_aggregate_sum forms_sample_store
        form_a_def form_b_def alice_def num_def round_1 round_2 round_half round_50)
qed

subsection \<open>Invariants of stored forms\<close>

text \<open>
  C8. Over any sequence of calls of the service, every stored form stays stored under its
  id, keeps its \<open>userId\<close>, and its visits and submissions counters never get smaller.
\<close>

theorem userId_fixed_counters_monotone:
  "wf s \<Longrightarrow> f \<in> set (forms s) \<Longrightarrow>
   \<exists>f'. formById (execs cs s) (fid f) = Some f' \<and> f' \<in> set (forms (execs cs s)) \<and>
        userId f' = userId f \<and> visits f \<le> visits f' \<and> submissions f \<le> submissions f'"
proof -
  assume "wf s" and "f \<in> set (forms s)"
  then have "formById s (fid f) = Some f" by (rule formById_stored)
  from execs_evolves [OF this] obtain f' where
    f': "formById (execs cs s) (fid f) = Some f'" and e: "evolves f f'" by blast
  from f' have "f' \<in> set (forms (execs cs s))"
    by (auto simp: formById_def find_Some_iff)
  with f' e show ?thesis by (auto simp: evolves_def)
qed

theorem userId_fixed_counters_monotone_witness:
  "wf sample_store \<and> form_a \<in> set (forms sample_store) \<and>
   (\<exists>f'. formById (execs later_session sample_store) 1 = Some f' \<and>
      f' \<in> set (forms (execs later_session sample_store)) \<and>
      userId f' = ''alice'' \<and> 2 \<le> visits f' \<and> 1 \<le> submissions f')"
proof -
  have h: "form_a \<in> set (forms sample_store)" by (simp add: forms_sample_store)
  have v: "fid form_a = 1" "userId form_a = ''alice''" "visits form_a = 2"
    "submissions form_a = 1"
    by (simp_all add: form_a_def)
  from userId_fixed_counters_monotone [OF wf_sample_store h, of later_session] v
  have "\<exists>f'. formById (execs later_session sample_store) 1 = Some f' \<and>
      f' \<in> set (forms (execs later_session sample_store)) \<and>
      userId f' = ''alice'' \<and> 2 \<le> visits f' \<and> 1 \<le> submissions f'"
    by simp
  with wf_sample_store h show ?thesis by blast
qed

text \<open>Alice's form after the later session: one more visit, one more answer, else the same.\<close>

lemma later_session_form_a:
  "formById (execs later_session sample_store) 1 = Some (form_a\<lparr>visits := 3, submissions := 2\<rparr>)"
  by code_simp

subsection \<open>Publishing\<close>

text \<open>
  \<^verbatim>\<open>PublishForm\<close> on a form of the caller rewrites that row alone, to published.
\<close>

lemma map_fid_rewrite:
  "(\<And>h. fid (g h) = fid h) \<Longrightarrow> map fid (map (\<lambda>h. if fid h = i then g h else h) fs) = map fid fs"
  by (induction fs) auto

lemma PublishForm_owner:
  assumes d: "distinct (map fid (forms s))" and fin: "f \<in> set (forms s)"
    and own: "userId f = user_id u"
  shows "PublishForm (Some u) (fid f) s =
     (Inr (f\<lparr>published := True\<rparr>),
      s\<lparr>forms := map (\<lambda>h. if fid h = fid f then h\<lparr>published := True\<rparr> else h) (forms s)\<rparr>)"
proof -
  have m: "\<forall>h\<in>set (forms s). (userId h = user_id u \<and> fid h = fid f) \<longleftrightarrow> fid h = fid f"
  proof
    fix h assume h: "h \<in> set (forms s)"
    show "(userId h = user_id u \<and> fid h = fid f) \<longleftrightarrow> fid h = fid f"
    proof
      assume "fid h = fid f"
      with d fin h have "h = f" by (auto simp: distinct_map dest: inj_onD)
      with own show "userId h = user_id u \<and> fid h = fid f" by simp
    qed simp
  qed
  from update_match [where k = fid, OF d fin m] show ?thesis
    by (simp add: PublishForm_def)
qed

text \<open>
  C6. \<^verbatim>\<open>PublishForm\<close> sets \<open>published\<close> on the form with the given id and the caller as
  owner; a second call returns the same form and leaves the store of the first call as
  it is. Over any sequence of calls of the service a published form stays published.
\<close>

theorem publish_one_way:
  "(wf s \<and> f \<in> set (forms s) \<and> userId f = user_id u \<longrightarrow>
      PublishForm (Some u) (fid f) s =
        (Inr (f\<lparr>published := True\<rparr>),
         s\<lparr>forms := map (\<lambda>h. if fid h = fid f then h\<lparr>published := True\<rparr> else h) (forms s)\<rparr>) \<and>
      PublishForm (Some u) (fid f) (snd (PublishForm (Some u) (fid f) s)) =
        (Inr (f\<lparr>published := True\<rparr>), snd (PublishForm (Some u) (fid f) s))) \<and>
   (wf s' \<and> g \<in> set (forms s') \<and> published g \<longrightarrow>
      (\<exists>g'. formById (execs cs s') (fid g) = Some g' \<and> published g'))"
proof (intro conjI impI)
  assume a: "wf s \<and> f \<in> set (forms s) \<and> userId f = user_id u"
  then have d: "distinct (map fid (forms s))" and fin: "f \<in> set (forms s)"
    and own: "userId f = user_id u" by (simp_all add: wf_distinct_fid)
  let ?p = "\<lambda>h. if fid h = fid f then h\<lparr>published := True\<rparr> else h"
  let ?s1 = "s\<lparr>forms := map ?p (forms s)\<rparr>"
  let ?f1 = "f\<lparr>published := True\<rparr>"
  show first: "PublishForm (Some u) (fid f) s = (Inr ?f1, ?s1)"
    by (rule PublishForm_owner [OF d fin own])
  have "map fid (map ?p (forms s)) = map fid (forms s)"
    by (rule map_fid_rewrite) simp
  then have "map fid (forms ?s1) = map fid (forms s)" by (simp del: map_map)
  with d have d1: "distinct (map fid (forms ?s1))" by (simp only:)
  from fin have fin1: "?f1 \<in> set (forms ?s1)" by force
  from own have own1: "userId ?f1 = user_id u" by simp
  have "map ?p (map ?p (forms s)) = map ?p (forms s)" by simp
  with PublishForm_owner [OF d1 fin1 own1]
  have "PublishForm (Some u) (fid f) ?s1 = (Inr ?f1, ?s1)" by simp
  with first show "PublishForm (Some u) (fid f) (snd (PublishForm (Some u) (fid f) s)) =
        (Inr ?f1, snd (PublishForm (Some u) (fid f) s))" by simp
next
  assume "wf s' \<and> g \<in> set (forms s') \<and> published g"
  then have g: "formById s' (fid g) = Some g" and p: "published g"
    by (simp_all add: formById_stored)
  from execs_evolves [OF g] obtain g' where
    "formById (execs cs s') (fid g) = Some g'" and "evolves g g'" by blast
  with p show "\<exists>g'. formById (execs cs s') (fid g) = Some g' \<and> published g'"
    by (auto simp: evolves_def)
qed

theorem publish_one_way_witness:
  "wf sample_store \<and> form_b \<in> set (forms sample_store) \<and> userId form_b = user_id bob \<and>
   PublishForm (Some bob) 2 sample_store =
     (Inr (form_b\<lparr>published := True\<rparr>),
      sample_store\<lparr>forms := [form_a, form_b\<lparr>published := True\<rparr>]\<rparr>) \<and>
   PublishForm (Some bob) 2 (sample_store\<lparr>forms := [form_a, form_b\<lparr>published := True\<rparr>]\<rparr>) =
     (Inr (form_b\<lparr>published := True\<rparr>),
      sample_store\<lparr>forms := [form_a, form_b\<lparr>published := True\<rparr>]\<rparr>) \<and>
   form_a \<in> set (forms sample_store) \<and> published form_a \<and>
   (\<exists>g'. formById (execs later_session sample_store) 1 = Some g' \<and> published g')"
proof -
  have h1: "wf sample_store \<and> form_b \<in> set (forms sample_store) \<and> userId form_b = user_id bob"
    using wf_sample_store by (simp add: forms_sample_store form_b_def bob_def)
  have h2: "wf sample_store \<and> form_a \<in> set (forms sample_store) \<and> published form_a"
    using wf_sample_store by (simp add: forms_sample_store form_a_def)
  have v: "fid form_a = 1" "fid form_b = 2"
    by (simp_all add: form_a_def form_b_def)
  note t = publish_one_way [where s = sample_store and f = form_b and u = bob
      and s' = sample_store and g = form_a and cs = later_session]
  from t h1 have "PublishForm (Some bob) (fid form_b) sample_store =
      (Inr (form_b\<lparr>published := True\<rparr>),
       sample_store\<lparr>forms := map (\<lambda>h. if fid h = fid form_b then h\<lparr>published := True\<rparr> else h)
                                  (forms sample_store)\<rparr>)"
    by blast
  then have r1: "PublishForm (Some bob) 2 sample_store =
      (Inr (form_b\<lparr>published := True\<rparr>),
       sample_store\<lparr>forms := [form_a, form_b\<lparr>published := True\<rparr>]\<rparr>)"
    by (simp add: v forms_sample_store)
  from t h1 have "PublishForm (Some bob) (fid form_b)
        (snd (PublishForm (Some bob) (fid form_b) sample_store)) =
      (Inr (form_b\<lparr>published := True\<rparr>), snd (PublishForm (Some bob) (fid form_b) sample_store))"
    by blast
  then have r2: "PublishForm (Some bob) 2
       (sample_store\<lparr>forms := [form_a, form_b\<lparr>published := True\<rparr>]\<rparr>) =
     (Inr (form_b\<lparr>published := True\<rparr>),
      sample_store\<lparr>forms := [form_a, form_b\<lparr>published := True\<rparr>]\<rparr>)"
    by (simp add: v r1)
  from t h2 have "\<exists>g'. formById (execs later_session sample_store) (fid form_a) = Some g' \<and>
      published g'"
    by blast
  then have r3: "\<exists>g'. formById (execs later_session sample_store) 1 = Some g' \<and> published g'"
    by (simp add: v)
  from h1 h2 r1 r2 r3 show ?thesis by blast
qed

end
